theory Spec2Isabelle
  imports Main "HOL-Library.Word"
begin

section \<open>Errors and dynamically typed values\<close>

text \<open>
  Exceptions of the Python source are values. \<open>ValueError\<close> is what
  \<open>Document.process_with\<close> raises itself, \<open>IndexError\<close> is what indexing a list
  out of range raises, and \<open>Exception\<close> stands for whatever a collaborator
  (a processor, a PDF page) raises, by its message.
\<close>

datatype error = ValueError string | IndexError string | Exception string

text \<open>
  A Python \<open>str\<close> is a \<open>string\<close> here, one \<open>char\<close> for each character of the
  source's string; \<open>bytes\<close> are a list of 8-bit words.
\<close>

text \<open>The \<open>Any\<close> of \<open>Dict[str, Any]\<close>: the values a metadata entry can hold.\<close>

datatype any = ANone | ABool bool | AInt int | AStr string
  | AList "any list" | ADict "(string \<times> any) list"

section \<open>The Document model (project-context.md)\<close>

text \<open>\<open>content: bytes | str\<close>.\<close>

datatype content = Bytes "8 word list" | Str string

type_synonym datetime = int

record Document =
  source :: string
  title :: string
  content :: content
  mime_type :: string
  url :: "string option"
  timestamp :: datetime
  metadata :: "(string \<times> any) list"
  extracted_text :: "string option"

text \<open>
  The processor handed to \<open>process_with\<close> is used through two methods only:
  \<open>supports_mime_type(mime_type)\<close>, a boolean test, and \<open>process(content)\<close>, which
  returns the text or raises.
\<close>

record DocumentProcessor =
  supports_mime_type :: "string \<Rightarrow> bool"
  process :: "content \<Rightarrow> error + string"

text \<open>
  \<open>process_with\<close> mutates \<open>self\<close> and returns a string or raises: the model returns
  the document as it is after the call together with the outcome. The message of the
  \<open>ValueError\<close> is the f-string of the source. When \<open>process\<close> raises, the assignment
  to \<open>self.extracted_text\<close> is never reached.
\<close>

definition process_with :: "Document \<Rightarrow> DocumentProcessor \<Rightarrow> Document \<times> (error + string)" where
  "process_with self processor =
     (if \<not> supports_mime_type processor (mime_type self)
      then (self, Inl (ValueError (''Processor does not support mime_type: '' @ mime_type self)))
      else (case process processor (content self) of
              Inl e \<Rightarrow> (self, Inl e)
            | Inr t \<Rightarrow> (self\<lparr>extracted_text := Some t\<rparr>, Inr t)))"

text \<open>
  A history of calls on one document: \<open>process_with\<close> with each processor of the list
  in turn, an exception of one call being caught by the caller before the next.
\<close>

fun process_with_each :: "Document \<Rightarrow> DocumentProcessor list \<Rightarrow> Document" where
  "process_with_each d [] = d"
| "process_with_each d (p # ps) = process_with_each (fst (process_with d p)) ps"

text \<open>Concrete documents and processors, for evaluating the model.\<close>

definition report_pdf :: Document where
  "report_pdf = \<lparr> source = ''gmail'', title = ''report'', content = Bytes [37, 80, 68, 70],
     mime_type = ''application/pdf'', url = None, timestamp = 1736265425,
     metadata = [(''sender'', AStr ''a@b.c'')], extracted_text = None \<rparr>"

definition note_done :: Document where
  "note_done = \<lparr> source = ''gmail'', title = ''note'', content = Str ''fresh words'',
     mime_type = ''text/plain'', url = None, timestamp = 1736265425,
     metadata = [], extracted_text = Some ''stale words'' \<rparr>"

definition text_processor :: DocumentProcessor where
  "text_processor = \<lparr> supports_mime_type = (\<lambda>m. m = ''text/plain''),
     process = (\<lambda>c. case c of Str s \<Rightarrow> Inr s
                             | Bytes b \<Rightarrow> Inl (Exception ''cannot decode'')) \<rparr>"

definition pdf_processor :: DocumentProcessor where
  "pdf_processor = \<lparr> supports_mime_type = (\<lambda>m. m = ''application/pdf''),
     process = (\<lambda>c. case c of Bytes b \<Rightarrow> Inr ''page one''
                             | Str s \<Rightarrow> Inl (Exception ''not a PDF'')) \<rparr>"

section \<open>PDF text extraction (notebooks/sandbox.ipynb)\<close>

text \<open>
  A page of the reader is modelled by what its \<open>extract_text()\<close> call gives: the text of
  the page, or the exception it raises.
\<close>

datatype page = Page (extract_text: "error + string")

text \<open>
  The list comprehension \<open>[page.extract_text() for page in reader.pages]\<close>: pages are
  visited in order and the first exception leaves the comprehension.
\<close>

fun extract_texts :: "page list \<Rightarrow> error + string list" where
  "extract_texts [] = Inr []"
| "extract_texts (p # ps) =
     (case extract_text p of
        Inl e \<Rightarrow> Inl e
      | Inr t \<Rightarrow> (case extract_texts ps of Inl e \<Rightarrow> Inl e | Inr ts \<Rightarrow> Inr (t # ts)))"

text \<open>Python's \<open>sep.join(items)\<close>.\<close>

fun join :: "string \<Rightarrow> string list \<Rightarrow> string" where
  "join sep [] = []"
| "join sep [t] = t"
| "join sep (t # u # ts) = t @ sep @ join sep (u # ts)"

text \<open>The separator \<open>"\n\n"\<close>: two line feeds, that is one blank line between pages.\<close>

definition blank_line :: string where
  "blank_line = [CHR 0x0A, CHR 0x0A]"

text \<open>
  The cell that reads a PDF: \<open>tmp = reader.pages[0]\<close> raises on a reader without pages,
  then the texts of all pages are joined.
\<close>

definition read_pdf_text :: "page list \<Rightarrow> error + string" where
  "read_pdf_text pages =
     (case pages of
        [] \<Rightarrow> Inl (IndexError ''Sequence index out of range'')
      | tmp # rest \<Rightarrow>
          (case extract_texts pages of
             Inl e \<Rightarrow> Inl e
           | Inr ts \<Rightarrow> Inr (join blank_line ts)))"

section \<open>Attachment parts of a Gmail payload (notebooks/sandbox.ipynb)\<close>

text \<open>
  A payload is a dictionary; \<open>get_parts\<close> reads its keys \<open>filename\<close> and \<open>parts\<close>, either
  of which may be absent. \<open>partId\<close> and \<open>mimeType\<close> stand for the rest of the dictionary.
\<close>

datatype payload =
  Payload (partId: string) (mimeType: string) (filename: "string option")
    (parts: "payload list option")

text \<open>
  Truth value of \<open>payload.get('filename')\<close>: false for a missing key and for the empty
  string.
\<close>

definition has_filename :: "payload \<Rightarrow> bool" where
  "has_filename p = (case filename p of None \<Rightarrow> False | Some s \<Rightarrow> s \<noteq> [])"

text \<open>
  The loop \<open>for part in payload['parts']: parts.extend(get_parts(part))\<close> is a left fold
  over the nested parts, starting from the empty list; the payload itself is appended
  last.
\<close>

fun get_parts :: "payload \<Rightarrow> payload list" where
  "get_parts (Payload pid mt fn ps) =
     (let parts0 = (case ps of
                      None \<Rightarrow> []
                    | Some qs \<Rightarrow> foldl (\<lambda>acc part. acc @ get_parts part) [] qs)
      in if has_filename (Payload pid mt fn ps)
         then parts0 @ [Payload pid mt fn ps]
         else parts0)"

text \<open>
  The claim about \<open>get_parts\<close> in its own words: every payload of the tree, each
  container after its nested parts (depth first, in the order of the \<open>parts\<close> lists).
  \<open>get_parts\<close> is compared with this traversal below.
\<close>

fun postorder_payloads :: "payload \<Rightarrow> payload list" where
  "postorder_payloads (Payload pid mt fn ps) =
     (case ps of None \<Rightarrow> [] | Some qs \<Rightarrow> concat (map postorder_payloads qs))
     @ [Payload pid mt fn ps]"

text \<open>Concrete inputs, for evaluating the model.\<close>

definition three_pages :: "page list" where
  "three_pages = [Page (Inr ''one''), Page (Inl (Exception ''bad page'')), Page (Inr ''three'')]"

definition body_part :: payload where
  "body_part = Payload ''0.0'' ''text/plain'' (Some []) None"

definition mail_payload :: payload where
  "mail_payload =
     Payload [] ''multipart/mixed'' (Some [])
       (Some [Payload ''0'' ''multipart/alternative'' None
                (Some [body_part, Payload ''0.1'' ''text/html'' (Some []) None]),
              Payload ''1'' ''application/pdf'' (Some ''a.pdf'') None,
              Payload ''2'' ''message/rfc822'' (Some ''fwd.eml'')
                (Some [Payload ''2.0'' ''text/plain'' (Some ''b.txt'') None])])"

section \<open>The Chunker (specification, section 4.4)\<close>

text \<open>
  No chunking code is among the sources of the repository, only the configured
  \<open>max_chunk_size\<close>; the definitions of this section follow the specification's
  description of the algorithm. Which characters end a sentence and which end a word
  is not fixed there, so both tests are parameters. No whitespace normalization is
  declared in the specification, and the model performs none.
\<close>

text \<open>Modelled from the spec: a Chunk of the Chunker, a sequence index and a text slice.\<close>

record Chunk =
  chunk_index :: nat
  chunk_text :: string

text \<open>
  Modelled from the spec: the boundaries of the Chunker. The text is cut after every
  character that ends a unit (a sentence, or a word); the last unit may lack its end.
\<close>

fun split_after :: "(char \<Rightarrow> bool) \<Rightarrow> string \<Rightarrow> string list" where
  "split_after stop [] = []"
| "split_after stop (c # cs) =
     (if stop c then [c] # split_after stop cs
      else (case split_after stop cs of
              [] \<Rightarrow> [[c]]
            | s # ss \<Rightarrow> (c # s) # ss))"

text \<open>
  Modelled from the spec: the Chunker's hard character cut, slices of \<open>m\<close> characters
  and a shorter last one.
\<close>

function hard_cut :: "nat \<Rightarrow> string \<Rightarrow> string list" where
  "hard_cut m s =
     (if m = 0 \<or> length s \<le> m then [s] else take m s # hard_cut m (drop m s))"
  by pat_completeness auto
termination
  by (relation "measure (\<lambda>(m, s). length s)") auto

declare hard_cut.simps [simp del]

text \<open>
  Modelled from the spec: the Chunker's fallbacks. A word is cut only when it alone
  exceeds the limit; a sentence that exceeds the limit falls back to its words.
\<close>

definition word_pieces :: "nat \<Rightarrow> string \<Rightarrow> string list" where
  "word_pieces m w = (if length w \<le> m then [w] else hard_cut m w)"

definition sentence_pieces :: "(char \<Rightarrow> bool) \<Rightarrow> nat \<Rightarrow> string \<Rightarrow> string list" where
  "sentence_pieces word_end m s =
     (if length s \<le> m then [s]
      else concat (map (word_pieces m) (split_after word_end s)))"

definition pieces ::
  "(char \<Rightarrow> bool) \<Rightarrow> (char \<Rightarrow> bool) \<Rightarrow> nat \<Rightarrow> string \<Rightarrow> string list" where
  "pieces sentence_end word_end m t =
     concat (map (sentence_pieces word_end m) (split_after sentence_end t))"

text \<open>
  Modelled from the spec: the Chunker's greedy accumulation. Pieces are added to the
  current chunk until the next addition would exceed the limit; then the chunk is
  emitted and a new one starts with that piece.
\<close>

fun accumulate :: "nat \<Rightarrow> string \<Rightarrow> string list \<Rightarrow> string list" where
  "accumulate m cur [] = (if cur = [] then [] else [cur])"
| "accumulate m cur (p # ps) =
     (if length cur + length p > m
      then (if cur = [] then accumulate m p ps else cur # accumulate m p ps)
      else accumulate m (cur @ p) ps)"

text \<open>Modelled from the spec: the Chunker, text and \<open>max_chunk_size\<close> to numbered chunks.\<close>

definition chunker ::
  "(char \<Rightarrow> bool) \<Rightarrow> (char \<Rightarrow> bool) \<Rightarrow> nat \<Rightarrow> string \<Rightarrow> Chunk list" where
  "chunker sentence_end word_end max_chunk_size t =
     map (\<lambda>(i, c). \<lparr> chunk_index = i, chunk_text = c \<rparr>)
       (enumerate 0
          (accumulate max_chunk_size [] (pieces sentence_end word_end max_chunk_size t)))"

text \<open>One choice of boundaries and a text, for evaluating the model.\<close>

definition ends_sentence :: "char \<Rightarrow> bool" where
  "ends_sentence c = (c = CHR ''.'' \<or> c = CHR ''!'' \<or> c = CHR ''?'')"

definition ends_word :: "char \<Rightarrow> bool" where
  "ends_word c = (c = CHR '' '' \<or> c = CHR 0x0A)"

definition sample_text :: string where
  "sample_text = ''Hi. I am here. Supercalifragilistic words go on! ok''"

section \<open>Voice assignment of the Dialogue Scriptwriter (specification, sections 4.3 and 8)\<close>

text \<open>
  No scriptwriter code is among the sources, only the configured list of voices. A
  parsed turn is its explicit speaker label, if it has one, and its utterance.
\<close>

type_synonym turn = "string option \<times> string"

text \<open>
  Modelled from the spec: the voice of turn \<open>i\<close> in the Scriptwriter's voice assignment.
  A label drawn from the voice list is kept; a turn without a label, or with a label
  that is not in the list, gets voice \<open>i mod K\<close> of the rotation.
\<close>

definition voice_for :: "string list \<Rightarrow> nat \<Rightarrow> string option \<Rightarrow> string" where
  "voice_for voices i label =
     (case label of
        Some l \<Rightarrow> if l \<in> set voices then l else voices ! (i mod length voices)
      | None \<Rightarrow> voices ! (i mod length voices))"

text \<open>
  Modelled from the spec: the Scriptwriter's voice assignment, a loop over the turns
  that counts the script index and drops no turn.
\<close>

fun assign_from :: "string list \<Rightarrow> nat \<Rightarrow> turn list \<Rightarrow> (string \<times> string) list" where
  "assign_from voices i [] = []"
| "assign_from voices i ((label, utterance) # rest) =
     (voice_for voices i label, utterance) # assign_from voices (Suc i) rest"

definition assign_voices :: "string list \<Rightarrow> turn list \<Rightarrow> (string \<times> string) list" where
  "assign_voices voices turns = assign_from voices 0 turns"

text \<open>The voices of \<open>config/default.yaml\<close> and a parsed script, for evaluating the model.\<close>

definition config_voices :: "string list" where
  "config_voices = [''alloy'', ''echo'', ''fable'', ''onyx'', ''nova'', ''shimmer'']"

definition sample_turns :: "turn list" where
  "sample_turns = [(None, ''Welcome.''), (Some ''nova'', ''Glad to be here.''),
     (Some ''female-1'', ''Tell us more.''), (None, ''Gladly.''), (None, ''a''), (None, ''b''),
     (Some ''host'', ''c''), (None, ''d'')]"

section \<open>Retry discipline of the Audio Synthesizer (specification, sections 4.5 and 8)\<close>

text \<open>
  No synthesis code is among the sources. The external capability answers a call with
  audio bytes, a Transient failure or a Permanent failure; it is a function of the
  chunk's text, the voice, the model and the number of the attempt for that chunk.
  The delays of the backoff are time and are not modelled; the attempt ceiling, which
  the specification leaves open, is a parameter.
\<close>

datatype outcome = Audio "8 word list" | Transient | Permanent

datatype synthesis_failure = PermanentFailure | AttemptsExhausted

type_synonym synthesis_capability = "string \<Rightarrow> string \<Rightarrow> string \<Rightarrow> nat \<Rightarrow> outcome"

text \<open>
  Modelled from the spec: the Synthesizer's bounded retry loop. \<open>left\<close> attempts remain,
  \<open>made\<close> have been made; the result is the outcome and the number of attempts made.
\<close>

fun retry ::
  "nat \<Rightarrow> nat \<Rightarrow> (nat \<Rightarrow> outcome) \<Rightarrow> (synthesis_failure + 8 word list) \<times> nat" where
  "retry 0 made call = (Inl AttemptsExhausted, made)"
| "retry (Suc left) made call =
     (case call made of
        Audio a \<Rightarrow> (Inr a, Suc made)
      | Permanent \<Rightarrow> (Inl PermanentFailure, Suc made)
      | Transient \<Rightarrow> retry left (Suc made) call)"

text \<open>Modelled from the spec: the Synthesizer on one chunk of text.\<close>

definition synthesize ::
  "nat \<Rightarrow> synthesis_capability \<Rightarrow> string \<Rightarrow> string \<Rightarrow> string
     \<Rightarrow> (synthesis_failure + 8 word list) \<times> nat" where
  "synthesize max_attempts capability txt voice model =
     retry max_attempts 0 (capability txt voice model)"

text \<open>
  Modelled from the spec: the Synthesizer on the chunks of one document, each chunk on
  its own.
\<close>

definition synthesize_chunks ::
  "nat \<Rightarrow> synthesis_capability \<Rightarrow> string \<Rightarrow> string \<Rightarrow> string list
     \<Rightarrow> ((synthesis_failure + 8 word list) \<times> nat) list" where
  "synthesize_chunks max_attempts capability voice model chunks =
     map (\<lambda>c. synthesize max_attempts capability c voice model) chunks"

text \<open>Two stubs of the capability, for evaluating the model.\<close>

definition flaky_tts :: synthesis_capability where
  "flaky_tts txt voice model attempt = (if attempt < 2 then Transient else Audio [73, 68, 51])"

definition strict_tts :: synthesis_capability where
  "strict_tts txt voice model attempt =
     (if txt = ''forbidden'' then Permanent else Audio [73, 68, 51])"

section \<open>Properties of \<open>Document.process_with\<close>\<close>

lemma process_with_each_None:
  "extracted_text d = None \<Longrightarrow> \<forall>p\<in>set ps. \<not> supports_mime_type p (mime_type d) \<Longrightarrow>
   extracted_text (process_with_each d ps) = None"
proof (induction ps arbitrary: d)
  case Nil
  then show ?case by simp
next
  case (Cons p ps)
  have unsupported: "\<not> supports_mime_type p (mime_type d)" using Cons.prems(2) by simp
  then have same: "fst (process_with d p) = d" by (simp add: process_with_def)
  show ?case using Cons.IH [of d] Cons.prems same by simp
qed

text \<open>
  Claim C1. When the processor does not support the document's MIME type,
  \<open>process_with\<close> fails: it raises the \<open>ValueError\<close> that names the MIME type (the
  error the specification calls UnsupportedFormat, of the ValidationError kind), and the
  document, \<open>extracted_text\<close> included, is as it was before the call.
\<close>

theorem process_with_unsupported:
  assumes "\<not> supports_mime_type P (mime_type D)"
  shows "snd (process_with D P) =
           Inl (ValueError (''Processor does not support mime_type: '' @ mime_type D))
         \<and> extracted_text (fst (process_with D P)) = extracted_text D
         \<and> fst (process_with D P) = D"
  using assms by (simp add: process_with_def)

theorem process_with_unsupported_witness:
  "\<not> supports_mime_type text_processor (mime_type report_pdf)
   \<and> snd (process_with report_pdf text_processor) =
       Inl (ValueError ''Processor does not support mime_type: application/pdf'')
   \<and> extracted_text (fst (process_with report_pdf text_processor)) = None"
proof -
  have h: "\<not> supports_mime_type text_processor (mime_type report_pdf)"
    by (simp add: text_processor_def report_pdf_def)
  show ?thesis
    using h process_with_unsupported [OF h] by (simp add: report_pdf_def)
qed

text \<open>
  Claim C8. When the processor supports the document's MIME type, \<open>process_with\<close>
  returns exactly what \<open>process\<close> gives on the document's content; when that is a
  string, the same string is stored in \<open>extracted_text\<close> and every other field of the
  document keeps its value, and when \<open>process\<close> raises, the document is unchanged.
\<close>

theorem process_with_supported:
  assumes "supports_mime_type P (mime_type D)"
  shows "snd (process_with D P) = process P (content D)
         \<and> (case process P (content D) of
               Inr t \<Rightarrow> extracted_text (fst (process_with D P)) = Some t
                        \<and> fst (process_with D P) = D\<lparr>extracted_text := Some t\<rparr>
             | Inl e \<Rightarrow> fst (process_with D P) = D)"
  using assms by (simp add: process_with_def split: sum.splits)

theorem process_with_supported_witness:
  "supports_mime_type pdf_processor (mime_type report_pdf)
   \<and> snd (process_with report_pdf pdf_processor) = Inr ''page one''
   \<and> extracted_text (fst (process_with report_pdf pdf_processor)) = Some ''page one''
   \<and> fst (process_with report_pdf pdf_processor) = report_pdf\<lparr>extracted_text := Some ''page one''\<rparr>"
proof -
  have h: "supports_mime_type pdf_processor (mime_type report_pdf)"
    by (simp add: pdf_processor_def report_pdf_def)
  have p: "process pdf_processor (content report_pdf) = Inr ''page one''"
    by (simp add: pdf_processor_def report_pdf_def)
  show ?thesis
    using h process_with_supported [OF h] by (simp add: p)
qed

text \<open>
  Claim C2, as stated, asks that a document whose \<open>extracted_text\<close> is set keeps it
  under a later \<open>process_with\<close> call. The assignment in \<open>process_with\<close> is
  unconditional: a second supporting processor replaces the stored text.
\<close>

theorem extracted_text_overwritten_counterexample:
  "extracted_text note_done = Some ''stale words''
   \<and> extracted_text (fst (process_with note_done text_processor)) = Some ''fresh words''
   \<and> extracted_text (fst (process_with note_done text_processor)) \<noteq> extracted_text note_done"
  by (simp add: process_with_def note_done_def text_processor_def)

text \<open>
  Claim C2, amended. Starting from \<open>None\<close>, \<open>extracted_text\<close> stays \<open>None\<close> under any
  sequence of \<open>process_with\<close> calls until a processor that supports the document's MIME
  type has run. After any call the field holds the text of that call's processor when
  the processor supports the MIME type and \<open>process\<close> returns, whatever the field held
  before; it keeps its earlier value when the processor does not support the MIME type
  or \<open>process\<close> raises.
\<close>

theorem extracted_text_history:
  "(extracted_text D = None \<and> extracted_text (process_with_each D ps) \<noteq> None
      \<longrightarrow> (\<exists>p\<in>set ps. supports_mime_type p (mime_type D)))
   \<and> (extracted_text (fst (process_with D' P)) =
        (if supports_mime_type P (mime_type D')
         then (case process P (content D') of Inr t \<Rightarrow> Some t | Inl e \<Rightarrow> extracted_text D')
         else extracted_text D'))"
proof
  show "extracted_text D = None \<and> extracted_text (process_with_each D ps) \<noteq> None
      \<longrightarrow> (\<exists>p\<in>set ps. supports_mime_type p (mime_type D))"
  proof
    assume h: "extracted_text D = None \<and> extracted_text (process_with_each D ps) \<noteq> None"
    show "\<exists>p\<in>set ps. supports_mime_type p (mime_type D)"
    proof (rule ccontr)
      assume "\<not> (\<exists>p\<in>set ps. supports_mime_type p (mime_type D))"
      then have "\<forall>p\<in>set ps. \<not> supports_mime_type p (mime_type D)" by simp
      then have "extracted_text (process_with_each D ps) = None"
        using h process_with_each_None by simp
      then show False using h by simp
    qed
  qed
next
  show "extracted_text (fst (process_with D' P)) =
        (if supports_mime_type P (mime_type D')
         then (case process P (content D') of Inr t \<Rightarrow> Some t | Inl e \<Rightarrow> extracted_text D')
         else extracted_text D')"
    by (simp add: process_with_def split: sum.splits)
qed

theorem extracted_text_history_witness:
  "extracted_text report_pdf = None
   \<and> extracted_text (process_with_each report_pdf [text_processor, pdf_processor]) \<noteq> None
   \<and> (\<exists>p\<in>set [text_processor, pdf_processor]. supports_mime_type p (mime_type report_pdf))
   \<and> extracted_text (fst (process_with note_done text_processor)) = Some ''fresh words''"
proof -
  have a: "extracted_text report_pdf = None" by (simp add: report_pdf_def)
  have b: "extracted_text (process_with_each report_pdf [text_processor, pdf_processor]) \<noteq> None"
    by (simp add: process_with_def report_pdf_def text_processor_def pdf_processor_def)
  have c: "\<exists>p\<in>set [text_processor, pdf_processor]. supports_mime_type p (mime_type report_pdf)"
    using a b extracted_text_history [of report_pdf "[text_processor, pdf_processor]"] by simp
  have d: "extracted_text (fst (process_with note_done text_processor)) = Some ''fresh words''"
    using extracted_text_history [of _ _ note_done text_processor]
    by (simp add: note_done_def text_processor_def)
  show ?thesis using a b c d by blast
qed

section \<open>Properties of the PDF text extraction\<close>



lemma extract_texts_first_failure:
  "i < length pages \<Longrightarrow> extract_text (pages ! i) = Inl e \<Longrightarrow>
   \<forall>j<i. \<exists>t. extract_text (pages ! j) = Inr t \<Longrightarrow> extract_texts pages = Inl e"
proof (induction pages arbitrary: i)
  case Nil
  then show ?case by simp
next
  case (Cons p ps)
  show ?case
  proof (cases i)
    case 0
    then show ?thesis using Cons.prems by simp
  next
    case (Suc k)
    have "\<exists>t. extract_text ((p # ps) ! 0) = Inr t" using Cons.prems(3) Suc by blast
    then obtain t where t: "extract_text p = Inr t" by auto
    have "\<forall>j<k. \<exists>t. extract_text (ps ! j) = Inr t"
    proof (intro allI impI)
      fix j assume "j < k"
      then have "Suc j < i" using Suc by simp
      then have "\<exists>t. extract_text ((p # ps) ! Suc j) = Inr t" using Cons.prems(3) by blast
      then show "\<exists>t. extract_text (ps ! j) = Inr t" by simp
    qed
    then have "extract_texts ps = Inl e"
      using Cons.IH [of k] Cons.prems Suc by simp
    then show ?thesis using t by simp
  qed
qed

lemma read_pdf_text_nonempty:
  "pages \<noteq> [] \<Longrightarrow> read_pdf_text pages =
     (case extract_texts pages of Inl e \<Rightarrow> Inl e | Inr ts \<Rightarrow> Inr (join blank_line ts))"
  by (cases pages) (simp_all add: read_pdf_text_def del: extract_texts.simps)



text \<open>
  Claim C5, as stated, asks that a page whose extraction fails is skipped and the other
  pages' texts are still returned. The list comprehension has no handler: with a failing
  second page of three, the read fails and returns no text.
\<close>

theorem failing_page_aborts_counterexample:
  "read_pdf_text three_pages = Inl (Exception ''bad page'')
   \<and> read_pdf_text three_pages \<noteq> Inr (join blank_line [''one'', ''three''])"
  by (simp add: read_pdf_text_def three_pages_def)

text \<open>
  Claim C5, amended. When some page of a PDF fails to extract, reading the document
  fails with the exception of the first failing page: no page is skipped and no text
  is returned.
\<close>

theorem read_pdf_text_first_failure:
  assumes "i < length pages" and "extract_text (pages ! i) = Inl e"
    and "\<forall>j<i. \<exists>t. extract_text (pages ! j) = Inr t"
  shows "read_pdf_text pages = Inl e"
proof -
  have "extract_texts pages = Inl e"
    using assms by (rule extract_texts_first_failure)
  moreover have "pages \<noteq> []" using assms(1) by auto
  ultimately show ?thesis by (simp add: read_pdf_text_nonempty)
qed

theorem read_pdf_text_first_failure_witness:
  "(1::nat) < length three_pages
   \<and> extract_text (three_pages ! 1) = Inl (Exception ''bad page'')
   \<and> extract_text (three_pages ! 0) = Inr ''one''
   \<and> read_pdf_text three_pages = Inl (Exception ''bad page'')"
proof -
  have a: "(1::nat) < length three_pages" by (simp add: three_pages_def)
  have b: "extract_text (three_pages ! 1) = Inl (Exception ''bad page'')"
    by (simp add: three_pages_def)
  have z: "extract_text (three_pages ! 0) = Inr ''one''"
    by (simp add: three_pages_def)
  have c: "\<forall>j<1::nat. \<exists>t. extract_text (three_pages ! j) = Inr t"
    using z by simp
  show ?thesis using a b z read_pdf_text_first_failure [OF a b c] by blast
qed

section \<open>Properties of \<open>get_parts\<close>\<close>

lemma foldl_extend:
  "foldl (\<lambda>acc part. acc @ f part) a qs = a @ concat (map f qs)"
  by (induction qs arbitrary: a) auto

lemma get_parts_filter_postorder:
  "get_parts p = filter has_filename (postorder_payloads p)"
proof (induction p)
  case (Payload pid mt fn ps)
  show ?case
  proof (cases ps)
    case None
    then show ?thesis by simp
  next
    case (Some qs)
    have m: "map get_parts qs = map (\<lambda>q. filter has_filename (postorder_payloads q)) qs"
      using Payload Some by (intro map_cong) auto
    show ?thesis
      by (simp add: Some foldl_extend filter_concat comp_def m)
  qed
qed

text \<open>
  Claim C10. \<open>get_parts\<close> returns exactly the payloads of the tree whose \<open>filename\<close> is
  truthy, in depth-first order with the nested parts of a container before the
  container itself; for a payload without \<open>parts\<close> and without a filename it returns
  the empty list.
\<close>

theorem get_parts_named_postorder:
  "get_parts p = filter has_filename (postorder_payloads p)
   \<and> (parts p = None \<and> \<not> has_filename p \<longrightarrow> get_parts p = [])"
proof
  show "get_parts p = filter has_filename (postorder_payloads p)"
    by (rule get_parts_filter_postorder)
next
  show "parts p = None \<and> \<not> has_filename p \<longrightarrow> get_parts p = []"
    by (cases p) (auto simp: has_filename_def)
qed

theorem get_parts_named_postorder_witness:
  "parts body_part = None \<and> \<not> has_filename body_part \<and> get_parts body_part = []
   \<and> get_parts mail_payload =
       [Payload ''1'' ''application/pdf'' (Some ''a.pdf'') None,
        Payload ''2.0'' ''text/plain'' (Some ''b.txt'') None,
        Payload ''2'' ''message/rfc822'' (Some ''fwd.eml'')
          (Some [Payload ''2.0'' ''text/plain'' (Some ''b.txt'') None])]"
proof -
  have a: "parts body_part = None \<and> \<not> has_filename body_part"
    by (simp add: body_part_def has_filename_def)
  have b: "get_parts body_part = []"
    using a get_parts_named_postorder [of body_part] by blast
  have c: "filter has_filename (postorder_payloads mail_payload) =
       [Payload ''1'' ''application/pdf'' (Some ''a.pdf'') None,
        Payload ''2.0'' ''text/plain'' (Some ''b.txt'') None,
        Payload ''2'' ''message/rfc822'' (Some ''fwd.eml'')
          (Some [Payload ''2.0'' ''text/plain'' (Some ''b.txt'') None])]"
    by (simp add: mail_payload_def body_part_def has_filename_def)
  show ?thesis
    using a b c get_parts_named_postorder [of mail_payload] by simp
qed

section \<open>Properties of the Chunker\<close>

lemma concat_split_after: "concat (split_after stop s) = s"
  by (induction s) (auto split: list.splits)

lemma concat_hard_cut: "concat (hard_cut m s) = s"
proof (induction m s rule: hard_cut.induct)
  case (1 m s)
  show ?case
  proof (cases "m = 0 \<or> length s \<le> m")
    case True
    then show ?thesis by (subst hard_cut.simps) simp
  next
    case False
    then have "concat (hard_cut m (drop m s)) = drop m s" using 1 by simp
    then show ?thesis using False by (subst hard_cut.simps) simp
  qed
qed

lemma length_hard_cut:
  "0 < m \<Longrightarrow> p \<in> set (hard_cut m s) \<Longrightarrow> length p \<le> m"
proof (induction m s rule: hard_cut.induct)
  case (1 m s)
  show ?case
  proof (cases "length s \<le> m")
    case True
    then have "hard_cut m s = [s]" by (subst hard_cut.simps) simp
    then show ?thesis using 1 True by simp
  next
    case False
    then have "hard_cut m s = take m s # hard_cut m (drop m s)"
      using 1 by (subst hard_cut.simps) simp
    then have "p = take m s \<or> p \<in> set (hard_cut m (drop m s))" using 1 by simp
    then show ?thesis
    proof
      assume "p = take m s"
      then show ?thesis by simp
    next
      assume "p \<in> set (hard_cut m (drop m s))"
      then show ?thesis using 1 False by simp
    qed
  qed
qed

lemma concat_word_pieces: "concat (word_pieces m w) = w"
  by (simp add: word_pieces_def concat_hard_cut)

lemma length_word_pieces: "0 < m \<Longrightarrow> p \<in> set (word_pieces m w) \<Longrightarrow> length p \<le> m"
  by (auto simp: word_pieces_def length_hard_cut split: if_splits)

lemma concat_concat_map:
  "(\<And>x. concat (f x) = x) \<Longrightarrow> concat (concat (map f xs)) = concat xs"
  by (induction xs) auto

lemma concat_sentence_pieces: "concat (sentence_pieces we m s) = s"
  by (simp add: sentence_pieces_def concat_concat_map concat_word_pieces concat_split_after)

lemma length_sentence_pieces:
  "0 < m \<Longrightarrow> p \<in> set (sentence_pieces we m s) \<Longrightarrow> length p \<le> m"
  by (auto simp: sentence_pieces_def length_word_pieces split: if_splits)

lemma concat_pieces: "concat (pieces se we m t) = t"
  by (simp add: pieces_def concat_concat_map concat_sentence_pieces concat_split_after)

lemma length_pieces: "0 < m \<Longrightarrow> p \<in> set (pieces se we m t) \<Longrightarrow> length p \<le> m"
  by (auto simp: pieces_def length_sentence_pieces)

lemma concat_accumulate: "concat (accumulate m cur ps) = cur @ concat ps"
  by (induction ps arbitrary: cur) auto

lemma length_accumulate:
  "length cur \<le> m \<Longrightarrow> \<forall>p\<in>set ps. length p \<le> m \<Longrightarrow>
   c \<in> set (accumulate m cur ps) \<Longrightarrow> length c \<le> m"
proof (induction ps arbitrary: cur)
  case Nil
  then show ?case by (auto split: if_splits)
next
  case (Cons p ps)
  have p: "length p \<le> m" and rest: "\<forall>q\<in>set ps. length q \<le> m"
    using Cons.prems(2) by simp_all
  show ?case
  proof (cases "length cur + length p > m")
    case True
    then have "c = cur \<or> c \<in> set (accumulate m p ps)"
      using Cons.prems(3) by (auto split: if_splits)
    then show ?thesis using Cons.IH [OF p rest] Cons.prems(1) by blast
  next
    case False
    then have fits: "length (cur @ p) \<le> m" by simp
    have "c \<in> set (accumulate m (cur @ p) ps)" using Cons.prems(3) False by simp
    then show ?thesis using Cons.IH [OF fits rest] by blast
  qed
qed

lemma chunk_texts:
  "map chunk_text (chunker se we m t) = accumulate m [] (pieces se we m t)"
proof -
  have unwrap: "map chunk_text (map (\<lambda>(i, c). \<lparr> chunk_index = i, chunk_text = c \<rparr>) xs) = map snd xs"
    for xs :: "(nat \<times> string) list"
    by (induction xs) auto
  show ?thesis
    unfolding chunker_def unwrap by (rule map_snd_enumerate)
qed

text \<open>
  Claim C3. For every text and every positive \<open>max_chunk_size\<close>, the texts of the
  chunks, concatenated in order, are the original text (no character dropped, none
  duplicated; the modelled Chunker normalizes no whitespace, so the equality is exact),
  and the text of every chunk has at most \<open>max_chunk_size\<close> characters. This holds for
  every choice of sentence and word boundaries.
\<close>

theorem chunker_reassembles:
  assumes "0 < M"
  shows "concat (map chunk_text (chunker se we M T)) = T
         \<and> (\<forall>c\<in>set (chunker se we M T). length (chunk_text c) \<le> M)"
proof
  show "concat (map chunk_text (chunker se we M T)) = T"
    by (simp add: chunk_texts concat_accumulate concat_pieces)
next
  show "\<forall>c\<in>set (chunker se we M T). length (chunk_text c) \<le> M"
  proof
    fix c assume "c \<in> set (chunker se we M T)"
    then have "chunk_text c \<in> set (map chunk_text (chunker se we M T))" by simp
    then have "chunk_text c \<in> set (accumulate M [] (pieces se we M T))"
      by (simp only: chunk_texts)
    then show "length (chunk_text c) \<le> M"
      using assms length_accumulate [of "[]" M "pieces se we M T" "chunk_text c"]
        length_pieces [of M _ se we T] by auto
  qed
qed

theorem chunker_reassembles_witness:
  "(0::nat) < 10
   \<and> concat (map chunk_text (chunker ends_sentence ends_word 10 sample_text)) = sample_text
   \<and> map chunk_text (chunker ends_sentence ends_word 10 sample_text) =
       [''Hi. I am '', ''here. '', ''Supercalif'', ''ragilistic'', '' words go '', ''on! ok'']
   \<and> list_all (\<lambda>c. length (chunk_text c) \<le> 10) (chunker ends_sentence ends_word 10 sample_text)"
proof -
  have pos: "(0::nat) < 10" by simp
  have texts: "map chunk_text (chunker ends_sentence ends_word 10 sample_text) =
       [''Hi. I am '', ''here. '', ''Supercalif'', ''ragilistic'', '' words go '', ''on! ok'']"
    by code_simp
  show ?thesis
    using pos texts chunker_reassembles [OF pos, of ends_sentence ends_word sample_text]
    by (simp add: list_all_iff)
qed

section \<open>Properties of the voice assignment\<close>

lemma length_assign_from: "length (assign_from voices i turns) = length turns"
  by (induction turns arbitrary: i) auto

lemma utterances_assign_from: "map snd (assign_from voices i turns) = map snd turns"
  by (induction turns arbitrary: i) auto

lemma nth_assign_from:
  "k < length turns \<Longrightarrow>
   assign_from voices i turns ! k = (voice_for voices (i + k) (fst (turns ! k)), snd (turns ! k))"
proof (induction turns arbitrary: i k)
  case Nil
  then show ?case by simp
next
  case (Cons t turns)
  obtain label utterance where t: "t = (label, utterance)" by (cases t)
  show ?case
  proof (cases k)
    case 0
    then show ?thesis using t by simp
  next
    case (Suc j)
    then have "j < length turns" using Cons.prems by simp
    then show ?thesis using Cons.IH [of j "Suc i"] Suc t by simp
  qed
qed

lemma voice_for_in_voices: "voices \<noteq> [] \<Longrightarrow> voice_for voices i label \<in> set voices"
  by (simp add: voice_for_def split: option.splits)

text \<open>
  Claim C6. With a voice list of length \<open>K \<ge> 1\<close>, the assignment is a function of the
  script and the voice list; it keeps every turn and every utterance, in order; turn
  \<open>i\<close> keeps its label when the label is in the voice list and otherwise (no label, or a
  label outside the list) gets voice \<open>i mod K\<close>; in either case the voice is one of the
  list.
\<close>

theorem assign_voices_cyclic:
  assumes "voices \<noteq> []" and "i < length turns"
  shows "length (assign_voices voices turns) = length turns
         \<and> map snd (assign_voices voices turns) = map snd turns
         \<and> snd (assign_voices voices turns ! i) = snd (turns ! i)
         \<and> fst (assign_voices voices turns ! i) =
             (case fst (turns ! i) of
                Some l \<Rightarrow> if l \<in> set voices then l else voices ! (i mod length voices)
              | None \<Rightarrow> voices ! (i mod length voices))
         \<and> fst (assign_voices voices turns ! i) \<in> set voices"
proof -
  have nth: "assign_voices voices turns ! i = (voice_for voices i (fst (turns ! i)), snd (turns ! i))"
    using nth_assign_from [OF assms(2), of voices 0] by (simp add: assign_voices_def)
  have a: "length (assign_voices voices turns) = length turns"
    by (simp add: assign_voices_def length_assign_from)
  have b: "map snd (assign_voices voices turns) = map snd turns"
    by (simp add: assign_voices_def utterances_assign_from)
  have c: "snd (assign_voices voices turns ! i) = snd (turns ! i)"
    by (simp add: nth)
  have d: "fst (assign_voices voices turns ! i) =
             (case fst (turns ! i) of
                Some l \<Rightarrow> if l \<in> set voices then l else voices ! (i mod length voices)
              | None \<Rightarrow> voices ! (i mod length voices))"
    by (simp add: nth voice_for_def)
  have e: "fst (assign_voices voices turns ! i) \<in> set voices"
    using assms(1) by (simp add: nth voice_for_in_voices)
  show ?thesis using a b c d e by blast
qed

theorem assign_voices_cyclic_witness:
  "config_voices \<noteq> [] \<and> (2::nat) < length sample_turns
   \<and> length (assign_voices config_voices sample_turns) = 8
   \<and> assign_voices config_voices sample_turns ! 2 = (''fable'', ''Tell us more.'')
   \<and> fst (assign_voices config_voices sample_turns ! 2) \<in> set config_voices"
proof -
  have a: "config_voices \<noteq> []" by (simp add: config_voices_def)
  have b: "(2::nat) < length sample_turns" by (simp add: sample_turns_def)
  have c: "fst (sample_turns ! 2) = Some ''female-1'' \<and> snd (sample_turns ! 2) = ''Tell us more.''"
    by (simp add: sample_turns_def)
  have d: "''female-1'' \<notin> set config_voices \<and> config_voices ! (2 mod length config_voices) = ''fable''"
    by (simp add: config_voices_def)
  have e: "length sample_turns = 8" by (simp add: sample_turns_def)
  note t = assign_voices_cyclic [OF a b]
  have f: "length (assign_voices config_voices sample_turns) = 8" using t e by simp
  have g: "assign_voices config_voices sample_turns ! 2 = (''fable'', ''Tell us more.'')"
    using t by (simp add: c d prod_eq_iff)
  have h: "fst (assign_voices config_voices sample_turns ! 2) \<in> set config_voices"
    using t by blast
  show ?thesis using a b f g h by blast
qed

section \<open>Properties of the synthesis retry\<close>

lemma retry_skips_transients:
  "k \<le> left \<Longrightarrow> \<forall>j<k. call (made + j) = Transient \<Longrightarrow>
   retry left made call = retry (left - k) (made + k) call"
proof (induction k arbitrary: left made)
  case 0
  then show ?case by simp
next
  case (Suc k)
  then obtain l where l: "left = Suc l" by (cases left) auto
  have "call (made + 0) = Transient" using Suc.prems(2) by blast
  then have first: "call made = Transient" by simp
  have "\<forall>j<k. call (Suc made + j) = Transient"
  proof (intro allI impI)
    fix j assume "j < k"
    then have "call (made + Suc j) = Transient" using Suc.prems(2) by blast
    then show "call (Suc made + j) = Transient" by simp
  qed
  then have "retry l (Suc made) call = retry (l - k) (Suc made + k) call"
    using Suc.IH [of l "Suc made"] Suc.prems(1) l by simp
  then show ?case using first l by simp
qed

lemma retry_settles:
  assumes "k < max_attempts" and "\<forall>j<k. call j = Transient"
  shows "retry max_attempts 0 call =
           (case call k of
              Audio a \<Rightarrow> (Inr a, Suc k)
            | Permanent \<Rightarrow> (Inl PermanentFailure, Suc k)
            | Transient \<Rightarrow> retry (max_attempts - Suc k) (Suc k) call)"
proof -
  obtain l where l: "max_attempts - k = Suc l" using assms(1) by (cases "max_attempts - k") auto
  then have l': "max_attempts - Suc k = l" by simp
  have "retry max_attempts 0 call = retry (max_attempts - k) k call"
    using retry_skips_transients [of k max_attempts call 0] assms by simp
  then show ?thesis by (simp add: l l' split: outcome.splits)
qed

text \<open>
  Claim C7. When the capability fails transiently on the first two attempts and answers
  on the third, and the attempt ceiling allows three attempts, the Synthesizer returns
  the audio after exactly three attempts. A Permanent failure ends the attempts at once:
  the attempt that met it is the last. The result of each chunk of a document is that
  of the chunk alone, so a failure of one chunk leaves the results of the others as
  they are.
\<close>

theorem synthesize_retry:
  "(3 \<le> n \<and> tts txt voice model 0 = Transient \<and> tts txt voice model 1 = Transient
      \<and> tts txt voice model 2 = Audio a
      \<longrightarrow> synthesize n tts txt voice model = (Inr a, 3))
   \<and> (k < n' \<and> (\<forall>j<k. tts' txt' voice' model' j = Transient)
      \<and> tts' txt' voice' model' k = Permanent
      \<longrightarrow> synthesize n' tts' txt' voice' model' = (Inl PermanentFailure, Suc k))
   \<and> (i < length chunks
      \<longrightarrow> synthesize_chunks m tts'' v md chunks ! i = synthesize m tts'' (chunks ! i) v md)"
proof (intro conjI impI)
  assume h: "3 \<le> n \<and> tts txt voice model 0 = Transient \<and> tts txt voice model 1 = Transient
      \<and> tts txt voice model 2 = Audio a"
  have early: "\<forall>j<2. tts txt voice model j = Transient"
  proof (intro allI impI)
    fix j :: nat assume "j < 2"
    then have "j = 0 \<or> j = 1" by auto
    then show "tts txt voice model j = Transient" using h by auto
  qed
  have "2 < n" using h by simp
  then show "synthesize n tts txt voice model = (Inr a, 3)"
    using retry_settles [of 2 n "tts txt voice model"] early h
    by (simp add: synthesize_def numeral_3_eq_3)
next
  assume h: "k < n' \<and> (\<forall>j<k. tts' txt' voice' model' j = Transient)
      \<and> tts' txt' voice' model' k = Permanent"
  then show "synthesize n' tts' txt' voice' model' = (Inl PermanentFailure, Suc k)"
    using retry_settles [of k n' "tts' txt' voice' model'"] by (simp add: synthesize_def)
next
  assume "i < length chunks"
  then show "synthesize_chunks m tts'' v md chunks ! i = synthesize m tts'' (chunks ! i) v md"
    by (simp add: synthesize_chunks_def)
qed

theorem synthesize_retry_witness:
  "(3::nat) \<le> 5 \<and> flaky_tts ''Hello.'' ''alloy'' ''tts-1'' 0 = Transient
   \<and> flaky_tts ''Hello.'' ''alloy'' ''tts-1'' 1 = Transient
   \<and> flaky_tts ''Hello.'' ''alloy'' ''tts-1'' 2 = Audio [73, 68, 51]
   \<and> synthesize 5 flaky_tts ''Hello.'' ''alloy'' ''tts-1'' = (Inr [73, 68, 51], 3)
   \<and> strict_tts ''forbidden'' ''alloy'' ''tts-1'' 0 = Permanent
   \<and> synthesize 5 strict_tts ''forbidden'' ''alloy'' ''tts-1'' = (Inl PermanentFailure, 1)
   \<and> (2::nat) < length [''Hello.'', ''forbidden'', ''Bye.'']
   \<and> synthesize_chunks 5 strict_tts ''alloy'' ''tts-1'' [''Hello.'', ''forbidden'', ''Bye.''] ! 2
       = synthesize 5 strict_tts ''Bye.'' ''alloy'' ''tts-1''
   \<and> synthesize_chunks 5 strict_tts ''alloy'' ''tts-1'' [''Hello.'', ''forbidden'', ''Bye.'']
       = [(Inr [73, 68, 51], 1), (Inl PermanentFailure, 1), (Inr [73, 68, 51], 1)]"
proof -
  have a: "flaky_tts ''Hello.'' ''alloy'' ''tts-1'' 0 = Transient
     \<and> flaky_tts ''Hello.'' ''alloy'' ''tts-1'' 1 = Transient
     \<and> flaky_tts ''Hello.'' ''alloy'' ''tts-1'' 2 = Audio [73, 68, 51]"
    by (simp add: flaky_tts_def)
  have b: "strict_tts ''forbidden'' ''alloy'' ''tts-1'' 0 = Permanent"
    by (simp add: strict_tts_def)
  have c: "synthesize_chunks 5 strict_tts ''alloy'' ''tts-1'' [''Hello.'', ''forbidden'', ''Bye.'']
       = [(Inr [73, 68, 51], 1), (Inl PermanentFailure, 1), (Inr [73, 68, 51], 1)]"
    by (simp add: synthesize_chunks_def synthesize_def strict_tts_def numeral_eq_Suc)
  have d: "synthesize 5 flaky_tts ''Hello.'' ''alloy'' ''tts-1'' = (Inr [73, 68, 51], 3)"
    using a synthesize_retry [of 5 flaky_tts "''Hello.''" "''alloy''" "''tts-1''" "[73, 68, 51]"]
    by simp
  have e: "synthesize 5 strict_tts ''forbidden'' ''alloy'' ''tts-1'' = (Inl PermanentFailure, 1)"
    using b synthesize_retry [of _ _ _ _ _ _ 0 5 strict_tts "''forbidden''" "''alloy''" "''tts-1''"]
    by simp
  have f: "synthesize_chunks 5 strict_tts ''alloy'' ''tts-1'' [''Hello.'', ''forbidden'', ''Bye.''] ! 2
       = synthesize 5 strict_tts ''Bye.'' ''alloy'' ''tts-1''"
    using synthesize_retry [of _ _ _ _ _ _ _ _ _ _ _ _ 2 "[''Hello.'', ''forbidden'', ''Bye.'']"
        5 strict_tts "''alloy''" "''tts-1''"]
    by simp
  show ?thesis using a b c d e f by simp
qed

end
